theory Spec2Isabelle
  imports Complex_Main "HOL-Library.Char_ord" "HOL-Library.List_Lexorder" "HOL-Library.Multiset"
begin

section \<open>Errors\<close>

text \<open>
  The exceptions that the modelled code can meet. Opening and parsing the input file is
  not modelled: the builders take the outcome of \<^verbatim>\<open>open\<close> and \<^verbatim>\<open>json.load\<close>, which is
  either an error or the parsed mapping.
\<close>

datatype error = FileNotFoundError | JSONDecodeError | ValueError | OverflowError | IndexError

fun sequence_err :: "(error + 'a) list \<Rightarrow> error + 'a list" where
  "sequence_err [] = Inr []"
| "sequence_err (r # rs) =
     (case r of Inl e \<Rightarrow> Inl e
      | Inr x \<Rightarrow> (case sequence_err rs of Inl e \<Rightarrow> Inl e | Inr xs \<Rightarrow> Inr (x # xs)))"

section \<open>Numeric values\<close>

text \<open>
  \<^verbatim>\<open>np.mean\<close> returns a float64. The model keeps the exact rational value of every
  finite result and has one extra value for NaN, which \<^verbatim>\<open>np.mean\<close> returns (with a
  warning, not an exception) on an empty slice. Rounding of float64 is not modelled.
\<close>

datatype npfloat = NaN | Fin rat

section \<open>The environment\<close>

text \<open>
  Two behaviours of the libraries under the program differ between installations and
  are parameters of the model.
  \<^item> \<^verbatim>\<open>strftime("%Y")\<close> pads a year below 1000 to four digits with some C libraries and
    prints it unpadded with others (glibc): \<open>pads_year\<close>.
  \<^item> \<^verbatim>\<open>np.mean\<close> of a list with an integer that numpy cannot hold as a 64-bit integer
    works on Python integers; whether it returns a float or raises depends on the
    version of numpy and on the values: \<open>object_mean\<close> is its result on such a list.
\<close>

record environment =
  pads_year :: bool
  object_mean :: "int list \<Rightarrow> error + npfloat"

definition in_int64 :: "int \<Rightarrow> bool" where
  "in_int64 x = (- (2 ^ 63) \<le> x \<and> x < 2 ^ 63)"

definition exact_mean :: "int list \<Rightarrow> rat" where
  "exact_mean xs = of_int (sum_list xs) / of_int (int (length xs))"

text \<open>
  \<^verbatim>\<open>np.mean\<close> of a list of Python integers. The empty list gives NaN. A list of 64-bit
  integers becomes an int64 array, whose mean is computed in float64 and cannot fail. A
  mean of \<open>2^1024\<close> or more is beyond every float64, and the conversion raises
  OverflowError. Every other list is left to the environment.
\<close>

definition np_mean :: "environment \<Rightarrow> int list \<Rightarrow> error + npfloat" where
  "np_mean env xs =
     (if xs = [] then Inr NaN
      else if list_all in_int64 xs then Inr (Fin (exact_mean xs))
      else if 2 ^ 1024 \<le> \<bar>exact_mean xs\<bar> then Inl OverflowError
      else object_mean env xs)"

text \<open>
  A Python slice \<^verbatim>\<open>xs[a:b]\<close> with step 1: a negative bound counts from the end, and
  both bounds are clamped to the list.
\<close>

definition slice_bound :: "int \<Rightarrow> int \<Rightarrow> nat" where
  "slice_bound n i = (if i < 0 then nat (max (i + n) 0) else nat (min i n))"

definition py_slice :: "'a list \<Rightarrow> int \<Rightarrow> int \<Rightarrow> 'a list" where
  "py_slice xs a b =
     (let n = int (length xs); lo = slice_bound n a; hi = slice_bound n b
      in take (hi - lo) (drop lo xs))"

section \<open>RollingAverage: \<^verbatim>\<open>calculate_rolling_average\<close>\<close>

text \<open>
  \<^verbatim>\<open>
  def calculate_rolling_average(data_series, window_size):
      rolling_avg = []
      if not data_series:
          return rolling_avg
      for i in range(len(data_series)):
          if i < window_size - 1:
              rolling_avg.append(np.mean(data_series[:i+1]))
          else:
              rolling_avg.append(np.mean(data_series[i-window_size+1:i+1]))
      return rolling_avg
  \<close>
  The function has no handler: an exception of \<^verbatim>\<open>np.mean\<close> at the first index where
  it occurs is the outcome of the call.
\<close>

definition rolling_entry :: "environment \<Rightarrow> int list \<Rightarrow> int \<Rightarrow> nat \<Rightarrow> error + npfloat" where
  "rolling_entry env data_series window_size i =
     (if int i < window_size - 1
      then np_mean env (py_slice data_series 0 (int i + 1))
      else np_mean env (py_slice data_series (int i - window_size + 1) (int i + 1)))"

definition calculate_rolling_average :: "environment \<Rightarrow> int list \<Rightarrow> int \<Rightarrow> error + npfloat list" where
  "calculate_rolling_average env data_series window_size =
     (if data_series = [] then Inr []
      else sequence_err (map (rolling_entry env data_series window_size) [0..<length data_series]))"



section \<open>The calendar of \<^verbatim>\<open>datetime\<close>\<close>

text \<open>
  Every \<^verbatim>\<open>datetime\<close> of the program is a date at midnight; it is represented by its
  proleptic Gregorian ordinal (\<^verbatim>\<open>toordinal()\<close>: day 1 is 0001-01-01). The conversions
  are those of CPython's \<^verbatim>\<open>datetime\<close> module; \<open>div\<close> and \<open>mod\<close> on \<^typ>\<open>int\<close> round
  as Python's \<^verbatim>\<open>//\<close> and \<^verbatim>\<open>%\<close> do.
\<close>

definition is_leap :: "int \<Rightarrow> bool" where
  "is_leap year = (year mod 4 = 0 \<and> (year mod 100 \<noteq> 0 \<or> year mod 400 = 0))"

definition days_before_year :: "int \<Rightarrow> int" where
  "days_before_year year = (let y = year - 1 in y * 365 + y div 4 - y div 100 + y div 400)"

definition DAYS_IN_MONTH :: "int list" where
  "DAYS_IN_MONTH = [- 1, 31, 28, 31, 30, 31, 30, 31, 31, 30, 31, 30, 31]"

definition DAYS_BEFORE_MONTH :: "int list" where
  "DAYS_BEFORE_MONTH = [- 1, 0, 31, 59, 90, 120, 151, 181, 212, 243, 273, 304, 334]"

definition days_in_month :: "int \<Rightarrow> int \<Rightarrow> int" where
  "days_in_month year month =
     (if month = 2 \<and> is_leap year then 29 else DAYS_IN_MONTH ! nat month)"

definition days_before_month :: "int \<Rightarrow> int \<Rightarrow> int" where
  "days_before_month year month =
     DAYS_BEFORE_MONTH ! nat month + (if month > 2 \<and> is_leap year then 1 else 0)"

definition ymd2ord :: "int \<Rightarrow> int \<Rightarrow> int \<Rightarrow> int" where
  "ymd2ord year month day = days_before_year year + days_before_month year month + day"

definition ord2ymd :: "int \<Rightarrow> int \<times> int \<times> int" where
  "ord2ymd ordinal =
     (let n = ordinal - 1;
          n400 = n div 146097; n = n mod 146097;
          n100 = n div 36524; n = n mod 36524;
          n4 = n div 1461; n = n mod 1461;
          n1 = n div 365; n = n mod 365;
          year = n400 * 400 + 1 + n100 * 100 + n4 * 4 + n1
      in if n1 = 4 \<or> n100 = 4 then (year - 1, 12, 31)
         else
           let leapyear = (n1 = 3 \<and> (n4 \<noteq> 24 \<or> n100 = 3));
               month = (n + 50) div 32;
               preceding = DAYS_BEFORE_MONTH ! nat month + (if month > 2 \<and> leapyear then 1 else 0)
           in if preceding > n
              then (let month = month - 1;
                        preceding = preceding - (DAYS_IN_MONTH ! nat month + (if month = 2 \<and> leapyear then 1 else 0))
                    in (year, month, n - preceding + 1))
              else (year, month, n - preceding + 1))"

text \<open>\<^verbatim>\<open>datetime.max\<close> is 9999-12-31, ordinal 3652059; \<^verbatim>\<open>datetime.min\<close> is ordinal 1.\<close>

definition MAXORDINAL :: int where
  "MAXORDINAL = 3652059"

text \<open>\<^verbatim>\<open>d + timedelta(days=1)\<close>: raises OverflowError beyond \<^verbatim>\<open>datetime.max\<close>.\<close>

definition add_one_day :: "int \<Rightarrow> error + int" where
  "add_one_day d = (if d + 1 > MAXORDINAL then Inl OverflowError else Inr (d + 1))"

text \<open>\<^verbatim>\<open>isocalendar()\<close>, with \<^verbatim>\<open>_isoweek1monday\<close>.\<close>

definition isoweek1monday :: "int \<Rightarrow> int" where
  "isoweek1monday year =
     (let firstday = ymd2ord year 1 1;
          firstweekday = (firstday + 6) mod 7;
          week1monday = firstday - firstweekday
      in if firstweekday > 3 then week1monday + 7 else week1monday)"

definition isocalendar :: "int \<Rightarrow> int \<times> int \<times> int" where
  "isocalendar today =
     (let year = fst (ord2ymd today);
          week1monday = isoweek1monday year;
          week = (today - week1monday) div 7;
          day = (today - week1monday) mod 7
      in if week < 0
         then (let year = year - 1;
                   week1monday = isoweek1monday year
               in (year, (today - week1monday) div 7 + 1, (today - week1monday) mod 7 + 1))
         else if week \<ge> 52 \<and> today \<ge> isoweek1monday (year + 1)
         then (year + 1, 1, day + 1)
         else (year, week + 1, day + 1))"

definition isoweekday :: "int \<Rightarrow> int" where
  "isoweekday d = (if d mod 7 = 0 then 7 else d mod 7)"

section \<open>Strings: formatting and parsing\<close>

definition is_digit :: "char \<Rightarrow> bool" where
  "is_digit c = (CHR ''0'' \<le> c \<and> c \<le> CHR ''9'')"

definition digit_val :: "char \<Rightarrow> int" where
  "digit_val c = int (of_char c) - 48"

definition digit_char :: "nat \<Rightarrow> char" where
  "digit_char d = char_of (48 + d)"

text \<open>\<^verbatim>\<open>str(n)\<close> of an integer, as an f-string field \<^verbatim>\<open>{n}\<close> renders it.\<close>

function str_nat :: "nat \<Rightarrow> string" where
  "str_nat n = (if n < 10 then [digit_char n] else str_nat (n div 10) @ [digit_char (n mod 10)])"
  by pat_completeness auto
termination
  by (relation "measure (\<lambda>n. n)") auto

declare str_nat.simps [simp del]

definition str_int :: "int \<Rightarrow> string" where
  "str_int i = (if i < 0 then CHR ''-'' # str_nat (nat (- i)) else str_nat (nat i))"

text \<open>
  Zero padding on the left to a width. \<^verbatim>\<open>{week:02d}\<close> is \<open>zero_pad 2 (str_int week)\<close>: a
  negative number already has two characters, so the position of the sign does not
  matter at width 2.
\<close>

definition zero_pad :: "nat \<Rightarrow> string \<Rightarrow> string" where
  "zero_pad width s = replicate (width - length s) (CHR ''0'') @ s"

text \<open>
  \<^verbatim>\<open>strftime("%Y-%m-%d")\<close>. The month and the day have two digits; the year has four
  digits where the C library pads it and its plain decimal form where it does not.
\<close>

definition strftime_ymd :: "environment \<Rightarrow> int \<Rightarrow> string" where
  "strftime_ymd env d =
     (case ord2ymd d of (year, month, day) \<Rightarrow>
        (if pads_year env then zero_pad 4 (str_int year) else str_int year)
        @ ''-'' @ zero_pad 2 (str_int month) @ ''-'' @ zero_pad 2 (str_int day))"

text \<open>
  \<^verbatim>\<open>strptime(s, "%Y-%m-%d")\<close>. CPython turns the format into the regular expression
  \<^verbatim>\<open>(\d\d\d\d)-(1[0-2]|0[1-9]|[1-9])-(3[0-1]|[1-2]\d|0[1-9]|[1-9]| [1-9])\<close>, requires
  that it consumes the whole string and then builds the date, which fails for year 0 and
  for a day beyond the month. Each failure is a ValueError.
\<close>

fun match_Y :: "string \<Rightarrow> (int \<times> string) option" where
  "match_Y (a # b # c # d # rest) =
     (if is_digit a \<and> is_digit b \<and> is_digit c \<and> is_digit d
      then Some (digit_val a * 1000 + digit_val b * 100 + digit_val c * 10 + digit_val d, rest)
      else None)"
| "match_Y _ = None"

fun match_m :: "string \<Rightarrow> (int \<times> string) option" where
  "match_m (a # b # rest) =
     (if a = CHR ''1'' \<and> b \<in> set ''012'' then Some (10 + digit_val b, rest)
      else if a = CHR ''0'' \<and> b \<in> set ''123456789'' then Some (digit_val b, rest)
      else if a \<in> set ''123456789'' then Some (digit_val a, b # rest)
      else None)"
| "match_m [a] = (if a \<in> set ''123456789'' then Some (digit_val a, []) else None)"
| "match_m [] = None"

fun match_d :: "string \<Rightarrow> (int \<times> string) option" where
  "match_d (a # b # rest) =
     (if a = CHR ''3'' \<and> b \<in> set ''01'' then Some (30 + digit_val b, rest)
      else if a \<in> set ''12'' \<and> is_digit b then Some (digit_val a * 10 + digit_val b, rest)
      else if a = CHR ''0'' \<and> b \<in> set ''123456789'' then Some (digit_val b, rest)
      else if a \<in> set ''123456789'' then Some (digit_val a, b # rest)
      else if a = CHR '' '' \<and> b \<in> set ''123456789'' then Some (digit_val b, rest)
      else None)"
| "match_d [a] = (if a \<in> set ''123456789'' then Some (digit_val a, []) else None)"
| "match_d [] = None"

fun match_lit :: "char \<Rightarrow> string \<Rightarrow> string option" where
  "match_lit c (a # rest) = (if a = c then Some rest else None)"
| "match_lit c [] = None"

definition strptime_ymd :: "string \<Rightarrow> error + int" where
  "strptime_ymd s =
     (case match_Y s of None \<Rightarrow> Inl ValueError
      | Some (year, s1) \<Rightarrow>
     (case match_lit (CHR ''-'') s1 of None \<Rightarrow> Inl ValueError
      | Some s2 \<Rightarrow>
     (case match_m s2 of None \<Rightarrow> Inl ValueError
      | Some (month, s3) \<Rightarrow>
     (case match_lit (CHR ''-'') s3 of None \<Rightarrow> Inl ValueError
      | Some s4 \<Rightarrow>
     (case match_d s4 of None \<Rightarrow> Inl ValueError
      | Some (day, s5) \<Rightarrow>
          if s5 \<noteq> [] then Inl ValueError
          else if year < 1 \<or> day > days_in_month year month then Inl ValueError
          else Inr (ymd2ord year month day))))))"

text \<open>
  \<^verbatim>\<open>strptime(s, "%G-W%V-%u")\<close>: the regular expression is
  \<^verbatim>\<open>(\d\d\d\d)-W(5[0-3]|0[1-9]|[1-4]\d|\d)-([1-7])\<close>, again to the end of the string.
  The date is then computed as \<^verbatim>\<open>_strptime._calc_julian_from_V\<close> does.
\<close>

fun match_V :: "string \<Rightarrow> (int \<times> string) option" where
  "match_V (a # b # rest) =
     (if a = CHR ''5'' \<and> b \<in> set ''0123'' then Some (50 + digit_val b, rest)
      else if a = CHR ''0'' \<and> b \<in> set ''123456789'' then Some (digit_val b, rest)
      else if a \<in> set ''1234'' \<and> is_digit b then Some (digit_val a * 10 + digit_val b, rest)
      else if is_digit a then Some (digit_val a, b # rest)
      else None)"
| "match_V [a] = (if is_digit a then Some (digit_val a, []) else None)"
| "match_V [] = None"

fun match_u :: "string \<Rightarrow> (int \<times> string) option" where
  "match_u (a # rest) = (if a \<in> set ''1234567'' then Some (digit_val a, rest) else None)"
| "match_u [] = None"

definition date_from_iso :: "int \<Rightarrow> int \<Rightarrow> int \<Rightarrow> error + int" where
  "date_from_iso iso_year iso_week iso_weekday =
     (if iso_year < 1 then Inl ValueError
      else
        let correction = isoweekday (ymd2ord iso_year 1 4) + 3;
            ordinal = iso_week * 7 + iso_weekday - correction
        in if ordinal < 1 \<and> iso_year - 1 < 1 then Inl ValueError
           else
             let year = (if ordinal < 1 then iso_year - 1 else iso_year);
                 julian = (if ordinal < 1
                           then ordinal + ymd2ord iso_year 1 1 - ymd2ord (iso_year - 1) 1 1
                           else ordinal);
                 result = julian - 1 + ymd2ord year 1 1
             in if result < 1 \<or> result > MAXORDINAL then Inl ValueError else Inr result)"

definition strptime_GVu :: "string \<Rightarrow> error + int" where
  "strptime_GVu s =
     (case match_Y s of None \<Rightarrow> Inl ValueError
      | Some (iso_year, s1) \<Rightarrow>
     (case match_lit (CHR ''-'') s1 of None \<Rightarrow> Inl ValueError
      | Some s2 \<Rightarrow>
     (case match_lit (CHR ''W'') s2 of None \<Rightarrow> Inl ValueError
      | Some s3 \<Rightarrow>
     (case match_V s3 of None \<Rightarrow> Inl ValueError
      | Some (iso_week, s4) \<Rightarrow>
     (case match_lit (CHR ''-'') s4 of None \<Rightarrow> Inl ValueError
      | Some s5 \<Rightarrow>
     (case match_u s5 of None \<Rightarrow> Inl ValueError
      | Some (weekday, s6) \<Rightarrow>
          if s6 \<noteq> [] then Inl ValueError
          else date_from_iso iso_year iso_week weekday))))))"

text \<open>
  \<^verbatim>\<open>week_key.split('-W')\<close>: the pieces between the occurrences of the separator.
\<close>

fun split_W :: "string \<Rightarrow> string \<Rightarrow> string list" where
  "split_W piece (a # b # rest) =
     (if a = CHR ''-'' \<and> b = CHR ''W'' then piece # split_W [] rest
      else split_W (piece @ [a]) (b # rest))"
| "split_W piece rest = [piece @ rest]"

text \<open>
  \<^verbatim>\<open>int(s)\<close> on an optional sign followed by decimal digits. (Python also accepts
  surrounding blanks and underscores between digits; the pieces of a week key have
  neither.)
\<close>

definition digits_value :: "string \<Rightarrow> int" where
  "digits_value ds = foldl (\<lambda>acc c. acc * 10 + digit_val c) 0 ds"

definition py_int :: "string \<Rightarrow> error + int" where
  "py_int s =
     (let (neg, ds) = (case s of c # r \<Rightarrow> if c = CHR ''-'' then (True, r)
                                         else if c = CHR ''+'' then (False, r) else (False, s)
                       | [] \<Rightarrow> (False, s))
      in if ds = [] \<or> \<not> list_all is_digit ds then Inl ValueError
         else Inr (if neg then - digits_value ds else digits_value ds))"

section \<open>Dictionaries\<close>

text \<open>
  A Python \<^verbatim>\<open>dict\<close> with string keys is an association list in insertion order.
  \<^verbatim>\<open>d[k] = v\<close> replaces the value of an existing key in place and appends a new key.
  Reading a \<^verbatim>\<open>defaultdict(int)\<close> or \<^verbatim>\<open>defaultdict(set)\<close> at a missing key gives \<open>0\<close> or
  the empty set.
\<close>

fun dict_set :: "string \<Rightarrow> 'v \<Rightarrow> (string \<times> 'v) list \<Rightarrow> (string \<times> 'v) list" where
  "dict_set k v [] = [(k, v)]"
| "dict_set k v ((k', v') # d) = (if k' = k then (k, v) # d else (k', v') # dict_set k v d)"

definition get_int :: "(string \<times> int) list \<Rightarrow> string \<Rightarrow> int" where
  "get_int d k = (case map_of d k of None \<Rightarrow> 0 | Some v \<Rightarrow> v)"

definition get_set :: "(string \<times> string set) list \<Rightarrow> string \<Rightarrow> string set" where
  "get_set d k = (case map_of d k of None \<Rightarrow> {} | Some s \<Rightarrow> s)"

section \<open>The input and the aggregation loop\<close>

text \<open>
  The parsed input file: a mapping from user id to that user's statistics, of which only
  \<^verbatim>\<open>daily_commits\<close>, a mapping from date string to count, is read. A user without that
  field has \<open>None\<close> (\<^verbatim>\<open>stats.get("daily_commits", {})\<close>). The argument \<open>loaded\<close> of the
  builders is the outcome of opening and parsing the file.
\<close>

type_synonym json_data = "(string \<times> (string \<times> int) list option) list"

type_synonym aggregate = "(string \<times> int) list \<times> (string \<times> string set) list"

text \<open>
  Both builders run the same double loop and differ in the key under which a record is
  accumulated:
  \<^verbatim>\<open>
  for user_id, stats in data.items():
      for fecha_str, cnt in stats.get("daily_commits", {}).items():
          date_obj = dt.datetime.strptime(fecha_str, "%Y-%m-%d")
          ...key...
          commits_by[key] += cnt
          if cnt > 0:
              active_users_by[key].add(user_id)
  \<close>
\<close>

definition day_key :: "string \<Rightarrow> error + string" where
  "day_key fecha_str =
     (case strptime_ymd fecha_str of Inl e \<Rightarrow> Inl e | Inr current_date_obj \<Rightarrow> Inr fecha_str)"

definition week_key_of :: "string \<Rightarrow> error + string" where
  "week_key_of fecha_str =
     (case strptime_ymd fecha_str of Inl e \<Rightarrow> Inl e
      | Inr date_obj \<Rightarrow>
          (case isocalendar date_obj of (year, week, _) \<Rightarrow>
             Inr (str_int year @ ''-W'' @ zero_pad 2 (str_int week))))"

definition add_record :: "string \<Rightarrow> string \<Rightarrow> int \<Rightarrow> aggregate \<Rightarrow> aggregate" where
  "add_record k user_id cnt agg =
     (case agg of (commits_by, active_users_by) \<Rightarrow>
        (dict_set k (get_int commits_by k + cnt) commits_by,
         if cnt > 0 then dict_set k (insert user_id (get_set active_users_by k)) active_users_by
         else active_users_by))"

fun accumulate_commits ::
  "(string \<Rightarrow> error + string) \<Rightarrow> string \<Rightarrow> (string \<times> int) list \<Rightarrow> aggregate \<Rightarrow> error + aggregate" where
  "accumulate_commits key_of user_id [] agg = Inr agg"
| "accumulate_commits key_of user_id ((fecha_str, cnt) # rest) agg =
     (case key_of fecha_str of Inl e \<Rightarrow> Inl e
      | Inr k \<Rightarrow> accumulate_commits key_of user_id rest (add_record k user_id cnt agg))"

fun accumulate_users ::
  "(string \<Rightarrow> error + string) \<Rightarrow> json_data \<Rightarrow> aggregate \<Rightarrow> error + aggregate" where
  "accumulate_users key_of [] agg = Inr agg"
| "accumulate_users key_of ((user_id, stats) # rest) agg =
     (case accumulate_commits key_of user_id (case stats of None \<Rightarrow> [] | Some daily_commits \<Rightarrow> daily_commits) agg of
        Inl e \<Rightarrow> Inl e
      | Inr agg' \<Rightarrow> accumulate_users key_of rest agg')"

text \<open>The records of an input, in the order in which the double loop visits them.\<close>

definition records_of :: "json_data \<Rightarrow> (string \<times> string \<times> int) list" where
  "records_of data =
     concat (map (\<lambda>(user_id, stats).
        map (\<lambda>(fecha_str, cnt). (user_id, fecha_str, cnt))
          (case stats of None \<Rightarrow> [] | Some daily_commits \<Rightarrow> daily_commits)) data)"

text \<open>
  The double loop is one loop over the records; the proofs below use this view of it.
\<close>

fun accumulate_records ::
  "(string \<Rightarrow> error + string) \<Rightarrow> (string \<times> string \<times> int) list \<Rightarrow> aggregate \<Rightarrow> error + aggregate" where
  "accumulate_records key_of [] agg = Inr agg"
| "accumulate_records key_of ((user_id, fecha_str, cnt) # rest) agg =
     (case key_of fecha_str of Inl e \<Rightarrow> Inl e
      | Inr k \<Rightarrow> accumulate_records key_of rest (add_record k user_id cnt agg))"

text \<open>
  What the rest of a builder reads of an aggregate: the set of keys, the total of each
  key and the set of active users of each key. In a consistent aggregate every set of
  users is finite and no larger than the total of its key.
\<close>

definition agg_keys :: "aggregate \<Rightarrow> string set" where
  "agg_keys agg = set (map fst (fst agg))"

definition agg_total :: "aggregate \<Rightarrow> string \<Rightarrow> int" where
  "agg_total agg k = get_int (fst agg) k"

definition agg_users :: "aggregate \<Rightarrow> string \<Rightarrow> string set" where
  "agg_users agg k = get_set (snd agg) k"

definition agg_consistent :: "aggregate \<Rightarrow> bool" where
  "agg_consistent agg = (\<forall>k. finite (agg_users agg k) \<and> int (card (agg_users agg k)) \<le> agg_total agg k)"

definition counts_nonneg :: "json_data \<Rightarrow> bool" where
  "counts_nonneg data = list_all (\<lambda>(user_id, fecha_str, cnt). 0 \<le> cnt) (records_of data)"

section \<open>DailySeriesBuilder: \<^verbatim>\<open>load_and_process_data\<close>\<close>

record daily_series =
  fechas :: "int list"
  commits_rolling_avg :: "npfloat list"
  users_rolling_avg :: "npfloat list"
  raw_commits :: "int list"
  raw_users :: "int list"

definition empty_daily_series :: daily_series where
  "empty_daily_series =
     \<lparr>fechas = [], commits_rolling_avg = [], users_rolling_avg = [], raw_commits = [], raw_users = []\<rparr>"

text \<open>
  \<^verbatim>\<open>
  date_range = []
  while current_date_fill <= end_date_fill:
      date_range.append(current_date_fill)
      current_date_fill += dt.timedelta(days=1)
  \<close>
\<close>

function date_range_loop :: "int \<Rightarrow> int \<Rightarrow> int list \<Rightarrow> error + int list" where
  "date_range_loop current_date_fill end_date_fill date_range =
     (if current_date_fill \<le> end_date_fill
      then (case add_one_day current_date_fill of Inl e \<Rightarrow> Inl e
            | Inr next_date \<Rightarrow> date_range_loop next_date end_date_fill (date_range @ [current_date_fill]))
      else Inr date_range)"
  by pat_completeness auto
termination
  by (relation "measure (\<lambda>(c, e, r). nat (e + 1 - c))")
     (auto simp add: add_one_day_def split: if_splits)

declare date_range_loop.simps [simp del]

text \<open>
  The body of the loop over \<^verbatim>\<open>date_range\<close>: the recorded values of a date whose string
  is a key of \<^verbatim>\<open>commits_by_day\<close>, zeros otherwise.
\<close>

definition complete_entry :: "environment \<Rightarrow> aggregate \<Rightarrow> int \<Rightarrow> int \<times> int" where
  "complete_entry env agg date_in_range =
     (case agg of (commits_by_day, active_users_by_day) \<Rightarrow>
        let date_str = strftime_ymd env date_in_range
        in if date_str \<in> set (map fst commits_by_day)
           then (get_int commits_by_day date_str, int (card (get_set active_users_by_day date_str)))
           else (0, 0))"

text \<open>
  The end of the body: the two rolling averages and the returned dictionary. An
  exception of \<^verbatim>\<open>calculate_rolling_average\<close> leaves the body.
  \<^verbatim>\<open>
  commits_rolling_avg = calculate_rolling_average(counts, window_size)
  users_rolling_avg = calculate_rolling_average(active_users, window_size)
  return {'fechas': fechas_dt, 'commits_rolling_avg': commits_rolling_avg, ...}
  \<close>
\<close>

definition make_series :: "environment \<Rightarrow> int list \<Rightarrow> int list \<Rightarrow> int list \<Rightarrow> int \<Rightarrow> error + daily_series" where
  "make_series env fechas_dt counts active_users window_size =
     (case calculate_rolling_average env counts window_size of Inl e \<Rightarrow> Inl e
      | Inr commits_avg \<Rightarrow>
     (case calculate_rolling_average env active_users window_size of Inl e \<Rightarrow> Inl e
      | Inr users_avg \<Rightarrow>
          Inr \<lparr>fechas = fechas_dt,
               commits_rolling_avg = commits_avg,
               users_rolling_avg = users_avg,
               raw_commits = counts,
               raw_users = active_users\<rparr>))"

text \<open>
  The part of the body after the aggregation loop: the sorted dates, the completion of
  the missing days when there is more than one date, and the rolling averages.
\<close>

definition build_daily_series :: "environment \<Rightarrow> aggregate \<Rightarrow> int \<Rightarrow> error + daily_series" where
  "build_daily_series env agg window_size =
     (case agg of (commits_by_day, active_users_by_day) \<Rightarrow>
          let fechas = sort (map fst commits_by_day)
          in if fechas = [] then Inr empty_daily_series
             else
     (case sequence_err (map strptime_ymd fechas) of Inl e \<Rightarrow> Inl e
      | Inr fechas_dt \<Rightarrow>
          let counts = map (get_int commits_by_day) fechas;
              active_users = map (\<lambda>f. int (card (get_set active_users_by_day f))) fechas
          in
     (case (if length fechas_dt > 1
            then (case date_range_loop (hd fechas_dt) (last fechas_dt) [] of Inl e \<Rightarrow> Inl e
                  | Inr date_range \<Rightarrow>
                      let complete = map (complete_entry env (commits_by_day, active_users_by_day)) date_range
                      in Inr (date_range, map fst complete, map snd complete))
            else Inr (fechas_dt, counts, active_users)) of Inl e \<Rightarrow> Inl e
      | Inr (fechas_dt, counts, active_users) \<Rightarrow>
          make_series env fechas_dt counts active_users window_size)))"

definition load_and_process_body :: "environment \<Rightarrow> error + json_data \<Rightarrow> int \<Rightarrow> error + daily_series" where
  "load_and_process_body env loaded window_size =
     (case loaded of Inl e \<Rightarrow> Inl e
      | Inr data \<Rightarrow>
     (case accumulate_users day_key data ([], []) of Inl e \<Rightarrow> Inl e
      | Inr agg \<Rightarrow> build_daily_series env agg window_size))"

text \<open>\<^verbatim>\<open>except Exception\<close>: every error becomes the empty series.\<close>

definition load_and_process_data :: "environment \<Rightarrow> error + json_data \<Rightarrow> int \<Rightarrow> daily_series" where
  "load_and_process_data env loaded window_size =
     (case load_and_process_body env loaded window_size of
        Inl e \<Rightarrow> empty_daily_series
      | Inr series \<Rightarrow> series)"

text \<open>
  The loading loop of \<^verbatim>\<open>plot_daily_activity\<close>:
  \<^verbatim>\<open>
  for country in countries:
      country_data = load_and_process_data(json_file, window_size)
      all_data[country] = country_data
  \<close>
  The argument pairs each country with the outcome of reading its file.
\<close>

definition load_all_daily ::
  "environment \<Rightarrow> (string \<times> (error + json_data)) list \<Rightarrow> int \<Rightarrow> (string \<times> daily_series) list" where
  "load_all_daily env countries window_size =
     foldl (\<lambda>all_data (country, loaded). dict_set country (load_and_process_data env loaded window_size) all_data)
       [] countries"

section \<open>WeeklySeriesBuilder: \<^verbatim>\<open>calculate_weekly_data\<close>\<close>

record weekly_series =
  week_fechas :: "int list"
  commits :: "int list"
  active_users :: "int list"
  week_labels :: "string list"

definition empty_weekly_series :: weekly_series where
  "empty_weekly_series = \<lparr>week_fechas = [], commits = [], active_users = [], week_labels = []\<rparr>"

text \<open>
  \<^verbatim>\<open>
  year_str, week_str = week_key.split('-W')
  year = int(year_str)
  week_num = int(week_str)
  date = dt.datetime.strptime(f"{year}-{week_num}-1", "%G-W%V-%u")
  \<close>
  Unpacking anything but two pieces is a ValueError.
\<close>

definition week_date :: "string \<Rightarrow> error + int" where
  "week_date week_key =
     (case split_W [] week_key of
        [year_str, week_str] \<Rightarrow>
          (case py_int year_str of Inl e \<Rightarrow> Inl e
           | Inr year \<Rightarrow>
          (case py_int week_str of Inl e \<Rightarrow> Inl e
           | Inr week_num \<Rightarrow> strptime_GVu (str_int year @ ''-'' @ str_int week_num @ ''-1'')))
      | _ \<Rightarrow> Inl ValueError)"

definition build_weekly_series :: "aggregate \<Rightarrow> error + weekly_series" where
  "build_weekly_series agg =
     (case agg of (commits_by_week, active_users_by_week) \<Rightarrow>
          let weeks = sort (map fst commits_by_week)
          in if weeks = [] then Inr empty_weekly_series
             else
     (case sequence_err (map week_date weeks) of Inl e \<Rightarrow> Inl e
      | Inr week_dates \<Rightarrow>
          Inr \<lparr>week_fechas = week_dates,
               commits = map (get_int commits_by_week) weeks,
               active_users = map (\<lambda>w. int (card (get_set active_users_by_week w))) weeks,
               week_labels = weeks\<rparr>))"

definition calculate_weekly_body :: "error + json_data \<Rightarrow> error + weekly_series" where
  "calculate_weekly_body loaded =
     (case loaded of Inl e \<Rightarrow> Inl e
      | Inr data \<Rightarrow>
     (case accumulate_users week_key_of data ([], []) of Inl e \<Rightarrow> Inl e
      | Inr agg \<Rightarrow> build_weekly_series agg))"

definition calculate_weekly_data :: "error + json_data \<Rightarrow> weekly_series" where
  "calculate_weekly_data loaded =
     (case calculate_weekly_body loaded of Inl e \<Rightarrow> empty_weekly_series | Inr series \<Rightarrow> series)"

section \<open>PercentageChangeCalculator: the loop of \<^verbatim>\<open>plot_percentage_change\<close>\<close>

text \<open>
  \<^verbatim>\<open>
  if yesterday != 0:
      change = ((today - yesterday) / yesterday) * 100
  else:
      if today == 0:
          change = 0
      else:
          change = 100
  \<close>
  NaN differs from every number, and arithmetic with NaN gives NaN.
\<close>

definition pct_change :: "npfloat \<Rightarrow> npfloat \<Rightarrow> npfloat" where
  "pct_change today yesterday =
     (if yesterday \<noteq> Fin 0
      then (case (today, yesterday) of
              (Fin t, Fin y) \<Rightarrow> Fin (((t - y) / y) * 100)
            | _ \<Rightarrow> NaN)
      else if today = Fin 0 then Fin 0 else Fin 100)"

text \<open>
  \<^verbatim>\<open>
  for i in range(1, len(country_data['commits_rolling_avg'])):
      today = country_data['commits_rolling_avg'][i]
      yesterday = country_data['commits_rolling_avg'][i-1]
      ...
      pct_change.append(change)
      fechas_pct.append(country_data['fechas'][i])
  \<close>
  Reading \<^verbatim>\<open>fechas\<close> beyond its end is an IndexError.
\<close>

fun pct_change_loop :: "daily_series \<Rightarrow> nat list \<Rightarrow> error + (int \<times> npfloat) list" where
  "pct_change_loop country_data [] = Inr []"
| "pct_change_loop country_data (i # rest) =
     (let today = commits_rolling_avg country_data ! i;
          yesterday = commits_rolling_avg country_data ! (i - 1);
          change = pct_change today yesterday
      in if i \<ge> length (fechas country_data) then Inl IndexError
         else (case pct_change_loop country_data rest of Inl e \<Rightarrow> Inl e
               | Inr entries \<Rightarrow> Inr ((fechas country_data ! i, change) # entries)))"

definition percentage_change :: "daily_series \<Rightarrow> error + int list \<times> npfloat list" where
  "percentage_change country_data =
     (if fechas country_data = [] \<or> commits_rolling_avg country_data = [] then Inr ([], [])
      else (case pct_change_loop country_data [1..<length (commits_rolling_avg country_data)] of
              Inl e \<Rightarrow> Inl e
            | Inr entries \<Rightarrow> Inr (map fst entries, map snd entries)))"

text \<open>
  The rule of the specification for one day, on finite values: the relative change in
  percent, \<open>0\<close> from zero to zero and the fixed \<open>100\<close> from zero to anything else.
\<close>

definition spec_change :: "rat \<Rightarrow> rat \<Rightarrow> rat" where
  "spec_change today yesterday =
     (if yesterday \<noteq> 0 then (today - yesterday) / yesterday * 100
      else if today = 0 then 0 else 100)"

section \<open>Notions used to state the claims on the weekly series\<close>

text \<open>
  A week entry has no activity when neither its commits nor its active users are
  positive. Two dates are in increasing week order when the ISO year and week of the
  first come before those of the second. A date represents a label when it is the
  Monday (ISO weekday 1) of the ISO week that the label names.
\<close>

definition zero_activity :: "int \<times> int \<Rightarrow> bool" where
  "zero_activity entry = (fst entry \<le> 0 \<and> snd entry \<le> 0)"

definition iso_week_less :: "int \<Rightarrow> int \<Rightarrow> bool" where
  "iso_week_less d1 d2 =
     (case (isocalendar d1, isocalendar d2) of
        ((y1, w1, _), (y2, w2, _)) \<Rightarrow> y1 < y2 \<or> (y1 = y2 \<and> w1 < w2))"

definition monday_of_label :: "string \<Rightarrow> int \<Rightarrow> bool" where
  "monday_of_label label d =
     (case isocalendar d of
        (year, week, weekday) \<Rightarrow> weekday = 1 \<and> label = str_int year @ ''-W'' @ zero_pad 2 (str_int week))"

section \<open>Two environments for concrete evaluations\<close>

text \<open>
  In the first the C library does not pad the year and numpy refuses every list with an
  integer outside the 64-bit range; in the second the year is padded and numpy returns
  the mean of such a list whenever it is below \<open>2^1024\<close>.
\<close>

definition strict_environment :: environment where
  "strict_environment = \<lparr>pads_year = False, object_mean = (\<lambda>xs. Inl OverflowError)\<rparr>"

definition lenient_environment :: environment where
  "lenient_environment = \<lparr>pads_year = True, object_mean = (\<lambda>xs. Inr (Fin (exact_mean xs)))\<rparr>"

section \<open>Properties of RollingAverage\<close>




lemma sequence_err_map_Inr:
  "(\<And>x. x \<in> set xs \<Longrightarrow> f x = Inr (g x)) \<Longrightarrow> sequence_err (map f xs) = Inr (map g xs)"
  by (induction xs) simp_all

lemma length_sequence_err:
  "sequence_err rs = Inr xs \<Longrightarrow> length xs = length rs"
  by (induction rs arbitrary: xs) (auto split: sum.splits)




lemma length_calculate_rolling_average:
  "calculate_rolling_average env xs w = Inr ys \<Longrightarrow> length ys = length xs"
  by (auto simp add: calculate_rolling_average_def split: if_splits dest: length_sequence_err)

lemma rolling_entry_nonpositive_window:
  assumes "i < length xs" and "w \<le> 0"
  shows "rolling_entry env xs w i = Inr NaN"
proof -
  have "slice_bound (int (length xs)) (int i + 1) \<le> slice_bound (int (length xs)) (int i - w + 1)"
    using assms by (auto simp add: slice_bound_def min_def)
  then have "py_slice xs (int i - w + 1) (int i + 1) = []"
    by (simp add: py_slice_def Let_def)
  moreover have "\<not> int i < w - 1"
    using assms by simp
  ultimately show ?thesis
    by (simp add: rolling_entry_def np_mean_def)
qed





text \<open>
  Claim C5 as stated: a window size \<open>w \<le> 0\<close> makes the call fail. The source has no
  check of the window size and raises nothing: the slice is empty and every entry is the
  NaN that \<^verbatim>\<open>np.mean\<close> gives for an empty slice.
\<close>

theorem rolling_average_nonpositive_counterexample:
  "calculate_rolling_average strict_environment [1, 2] 0 = Inr [NaN, NaN]
   \<and> calculate_rolling_average strict_environment [1, 2] (- 3) = Inr [NaN, NaN]
   \<and> calculate_rolling_average lenient_environment [1, 2] 0 = Inr [NaN, NaN]
   \<and> calculate_rolling_average lenient_environment [1, 2] (- 3) = Inr [NaN, NaN]"
  by (simp add: calculate_rolling_average_def rolling_entry_nonpositive_window upt_rec [of 0] upt_rec [of 1])

text \<open>
  Claim C5 as amended. For every window size \<open>w \<le> 0\<close> the call returns normally: a
  sequence as long as the input in which every entry is NaN (the empty sequence on empty
  input).
\<close>

theorem rolling_average_nonpositive:
  assumes "w \<le> 0"
  shows "calculate_rolling_average env xs w = Inr (replicate (length xs) NaN)"
proof -
  have "sequence_err (map (rolling_entry env xs w) [0..<length xs])
      = Inr (map (\<lambda>i. NaN) [0..<length xs])"
    using assms by (intro sequence_err_map_Inr) (simp add: rolling_entry_nonpositive_window)
  moreover have "map (\<lambda>i. NaN) [0..<length xs] = replicate (length xs) NaN"
    by (simp add: map_replicate_const)
  ultimately show ?thesis
    by (simp add: calculate_rolling_average_def)
qed

theorem rolling_average_nonpositive_witness:
  "(- 1 :: int) \<le> 0 \<and> calculate_rolling_average lenient_environment [7, 0, 3] (- 1) = Inr [NaN, NaN, NaN]"
proof -
  have h: "(- 1 :: int) \<le> 0" by simp
  show ?thesis
    using rolling_average_nonpositive [OF h, of lenient_environment "[7, 0, 3]"] by (simp add: numeral_3_eq_3)
qed

section \<open>The weekly builder never returns a week\<close>

lemma is_digit_digit_char: "d < 10 \<Longrightarrow> is_digit (digit_char d)"
proof -
  assume "d < 10"
  then have "d \<in> {0,1,2,3,4,5,6,7,8,9}" by auto
  then show ?thesis
    by (auto simp add: is_digit_def digit_char_def less_eq_char_def)
qed

lemma str_nat_digits: "str_nat n \<noteq> [] \<and> list_all is_digit (str_nat n)"
proof (induction n rule: str_nat.induct)
  case (1 n)
  show ?case
  proof (cases "n < 10")
    case True
    then show ?thesis by (subst (1 2) str_nat.simps) (simp add: is_digit_digit_char)
  next
    case False
    with 1 show ?thesis
      by (subst (1 2) str_nat.simps) (simp add: is_digit_digit_char)
  qed
qed

lemma not_digit_minus: "\<not> is_digit (CHR ''-'')"
  by (simp add: is_digit_def)

lemma digit_not_special: "is_digit c \<Longrightarrow> c \<noteq> CHR ''-'' \<and> c \<noteq> CHR ''W''"
  by (auto simp add: is_digit_def)

lemma match_Y_SomeD:
  "match_Y s = Some (v, s1) \<Longrightarrow>
     \<exists>a b c d. s = a # b # c # d # s1 \<and> is_digit a \<and> is_digit b \<and> is_digit c \<and> is_digit d"
  by (cases s rule: match_Y.cases) (auto split: if_splits)

lemma match_Y_nondigit: "\<not> is_digit a \<Longrightarrow> match_Y (a # s) = None"
  by (cases "match_Y (a # s)") (auto dest: match_Y_SomeD)

lemma match_lit_SomeD: "match_lit c s = Some s' \<Longrightarrow> s = c # s'"
  by (cases s) (auto split: if_splits)

lemma match_Y_digits_dash:
  assumes "list_all is_digit ds"
    and "match_Y (ds @ CHR ''-'' # r) = Some (v, s1)"
    and "match_lit (CHR ''-'') s1 = Some s2"
  shows "s2 = r"
proof -
  from assms(2) obtain a b c d where
    eq: "ds @ CHR ''-'' # r = a # b # c # d # s1" and
    dig: "is_digit a" "is_digit b" "is_digit c" "is_digit d"
    by (blast dest: match_Y_SomeD)
  from assms(3) have s1: "s1 = CHR ''-'' # s2"
    by (rule match_lit_SomeD)
  show ?thesis
  proof (cases ds rule: match_Y.cases)
    case (1 a' b' c' d' rest)
    show ?thesis
    proof (cases rest)
      case Nil
      with 1 eq s1 show ?thesis by simp
    next
      case (Cons e t)
      with 1 assms(1) have "is_digit e" by simp
      with 1 Cons eq s1 show ?thesis
        by (auto dest: digit_not_special)
    qed
  qed (use eq dig in \<open>auto simp add: not_digit_minus\<close>)
qed

lemma str_int_head:
  "\<exists>c t. str_int w = c # t \<and> c \<noteq> CHR ''W''"
proof (cases "w < 0")
  case True
  then show ?thesis by (simp add: str_int_def)
next
  case False
  obtain c t where ct: "str_nat (nat w) = c # t"
    using str_nat_digits [of "nat w"] by (cases "str_nat (nat w)") auto
  with str_nat_digits [of "nat w"] have "is_digit c" by simp
  with ct False show ?thesis
    by (auto simp add: str_int_def dest: digit_not_special)
qed

lemma strptime_GVu_week_string:
  "strptime_GVu (str_int year @ CHR ''-'' # str_int week_num @ ''-1'') = Inl ValueError"
proof (cases "year < 0")
  case True
  then show ?thesis
    by (simp add: strptime_GVu_def str_int_def not_digit_minus match_Y_nondigit)
next
  case False
  let ?r = "str_int week_num @ ''-1''"
  have s: "str_int year @ CHR ''-'' # ?r = str_nat (nat year) @ CHR ''-'' # ?r"
    using False by (simp add: str_int_def)
  have W: "match_lit (CHR ''W'') ?r = None"
    using str_int_head [of week_num] by auto
  show ?thesis
  proof (cases "match_Y (str_nat (nat year) @ CHR ''-'' # ?r)")
    case None
    then show ?thesis by (simp add: strptime_GVu_def s)
  next
    case (Some p)
    obtain v s1 where p: "p = (v, s1)" by (cases p)
    show ?thesis
    proof (cases "match_lit (CHR ''-'') s1")
      case None
      with Some p show ?thesis by (simp add: strptime_GVu_def s)
    next
      case (Some s2)
      with \<open>match_Y _ = Some p\<close> p str_nat_digits [of "nat year"]
      have "s2 = ?r" by (auto intro: match_Y_digits_dash)
      with Some \<open>match_Y _ = Some p\<close> p W show ?thesis
        by (simp add: strptime_GVu_def s)
    qed
  qed
qed

lemma week_date_fails: "\<exists>e. week_date wk = Inl e"
  by (auto simp add: week_date_def strptime_GVu_week_string split: list.splits sum.splits)

lemma sequence_err_week_date:
  "weeks \<noteq> [] \<Longrightarrow> \<exists>e. sequence_err (map week_date weeks) = Inl e"
  using week_date_fails [of "hd weeks"] by (cases weeks) auto

lemma build_weekly_series_Inr:
  assumes "build_weekly_series agg = Inr series"
  shows "series = empty_weekly_series"
proof -
  obtain commits_by_week active_users_by_week where agg: "agg = (commits_by_week, active_users_by_week)"
    by (cases agg)
  show ?thesis
  proof (cases "sort (map fst commits_by_week) = []")
    case True
    with assms agg show ?thesis
      by (simp add: build_weekly_series_def)
  next
    case False
    then obtain e where "sequence_err (map week_date (sort (map fst commits_by_week))) = Inl e"
      using sequence_err_week_date by blast
    with assms agg False show ?thesis
      by (simp add: build_weekly_series_def Let_def)
  qed
qed

lemma calculate_weekly_data_empty: "calculate_weekly_data loaded = empty_weekly_series"
proof (cases "calculate_weekly_body loaded")
  case (Inl e)
  then show ?thesis by (simp add: calculate_weekly_data_def)
next
  case (Inr series)
  then have "series = empty_weekly_series"
    by (auto simp add: calculate_weekly_body_def split: sum.splits dest: build_weekly_series_Inr)
  with Inr show ?thesis by (simp add: calculate_weekly_data_def)
qed

section \<open>Properties of the aggregation loop\<close>

lemma map_of_dict_set: "map_of (dict_set k v d) = (map_of d)(k \<mapsto> v)"
  by (induction k v d rule: dict_set.induct) auto

lemma keys_dict_set: "fst ` set (dict_set k v d) = insert k (fst ` set d)"
  by (induction k v d rule: dict_set.induct) auto

lemma distinct_dict_set: "distinct (map fst d) \<Longrightarrow> distinct (map fst (dict_set k v d))"
  by (induction k v d rule: dict_set.induct) (auto simp add: keys_dict_set)

lemma get_int_dict_set: "get_int (dict_set k v d) k' = (if k' = k then v else get_int d k')"
  by (simp add: get_int_def map_of_dict_set)

lemma get_set_dict_set: "get_set (dict_set k v d) k' = (if k' = k then v else get_set d k')"
  by (simp add: get_set_def map_of_dict_set)

lemma agg_keys_add_record: "agg_keys (add_record k u c agg) = insert k (agg_keys agg)"
  by (cases agg) (simp add: agg_keys_def add_record_def keys_dict_set)

lemma agg_total_add_record:
  "agg_total (add_record k u c agg) k' = (if k' = k then agg_total agg k + c else agg_total agg k')"
  by (cases agg) (simp add: agg_total_def add_record_def get_int_dict_set)

lemma agg_users_add_record:
  "agg_users (add_record k u c agg) k' =
     (if k' = k \<and> 0 < c then insert u (agg_users agg k) else agg_users agg k')"
  by (cases agg) (simp add: agg_users_def add_record_def get_set_dict_set)

lemma distinct_add_record:
  "distinct (map fst (fst agg)) \<Longrightarrow> distinct (map fst (fst (add_record k u c agg)))"
  by (cases agg) (simp add: add_record_def distinct_dict_set)

lemma agg_consistent_add_record:
  assumes "agg_consistent agg" and "0 \<le> c"
  shows "agg_consistent (add_record k u c agg)"
  unfolding agg_consistent_def
proof (intro allI)
  fix k'
  from assms(1) have fin: "finite (agg_users agg k)" and le: "int (card (agg_users agg k)) \<le> agg_total agg k"
    and fin': "finite (agg_users agg k')" and le': "int (card (agg_users agg k')) \<le> agg_total agg k'"
    by (simp_all add: agg_consistent_def)
  have "card (insert u (agg_users agg k)) \<le> Suc (card (agg_users agg k))"
    using fin by (simp add: card_insert_if)
  with fin le fin' le' assms(2)
  show "finite (agg_users (add_record k u c agg) k')
      \<and> int (card (agg_users (add_record k u c agg) k')) \<le> agg_total (add_record k u c agg) k'"
    by (auto simp add: agg_users_add_record agg_total_add_record)
qed

lemma agg_consistent_empty: "agg_consistent ([], [])"
  by (simp add: agg_consistent_def agg_users_def agg_total_def get_set_def get_int_def)

lemma accumulate_commits_records:
  "accumulate_commits key_of u recs agg = accumulate_records key_of (map (\<lambda>(f, c). (u, f, c)) recs) agg"
  by (induction key_of u recs agg rule: accumulate_commits.induct) (simp_all split: sum.splits)

lemma accumulate_records_append:
  "accumulate_records key_of (xs @ ys) agg =
     (case accumulate_records key_of xs agg of Inl e \<Rightarrow> Inl e | Inr agg' \<Rightarrow> accumulate_records key_of ys agg')"
  by (induction key_of xs agg rule: accumulate_records.induct) (simp_all split: sum.splits)

lemma accumulate_users_records:
  "accumulate_users key_of data agg = accumulate_records key_of (records_of data) agg"
proof (induction data arbitrary: agg)
  case Nil
  show ?case by (simp add: records_of_def)
next
  case (Cons p data)
  obtain u s where p: "p = (u, s)" by (cases p)
  have r: "records_of (p # data) =
      map (\<lambda>(f, c). (u, f, c)) (case s of None \<Rightarrow> [] | Some dc \<Rightarrow> dc) @ records_of data"
    by (simp add: records_of_def p)
  show ?case
    unfolding r accumulate_records_append
    by (simp add: p accumulate_commits_records Cons.IH [unfolded records_of_def] records_of_def split: sum.splits)
qed

lemma accumulate_records_consistent:
  assumes "accumulate_records key_of recs agg = Inr agg'"
    and "list_all (\<lambda>(u, f, c). 0 \<le> c) recs" and "agg_consistent agg"
  shows "agg_consistent agg'"
  using assms
proof (induction recs arbitrary: agg)
  case Nil
  then show ?case by simp
next
  case (Cons r recs)
  obtain u f c where r: "r = (u, f, c)" by (cases r)
  from Cons.prems(1) r obtain k where k: "key_of f = Inr k"
    and rest: "accumulate_records key_of recs (add_record k u c agg) = Inr agg'"
    by (auto split: sum.splits)
  from Cons.prems r have "agg_consistent (add_record k u c agg)"
    by (simp add: agg_consistent_add_record)
  with Cons.IH [OF rest] Cons.prems(2) show ?case by simp
qed

text \<open>What a successful run of the loop leaves in the aggregate.\<close>

lemma accumulate_records_keys_ok:
  "accumulate_records key_of recs agg = Inr agg' \<Longrightarrow> (u, f, c) \<in> set recs \<Longrightarrow> \<exists>k. key_of f = Inr k"
proof (induction recs arbitrary: agg)
  case Nil
  then show ?case by simp
next
  case (Cons r recs)
  obtain u' f' c' where r: "r = (u', f', c')" by (cases r)
  from Cons.prems(1) r obtain k where k: "key_of f' = Inr k"
    and rest: "accumulate_records key_of recs (add_record k u' c' agg) = Inr agg'"
    by (auto split: sum.splits)
  from Cons.prems(2) r k Cons.IH [OF rest] show ?case by auto
qed

lemma accumulate_records_succeeds:
  "(\<And>u f c. (u, f, c) \<in> set recs \<Longrightarrow> \<exists>k. key_of f = Inr k) \<Longrightarrow> \<exists>agg'. accumulate_records key_of recs agg = Inr agg'"
proof (induction recs arbitrary: agg)
  case Nil
  show ?case by simp
next
  case (Cons r recs)
  obtain u f c where r: "r = (u, f, c)" by (cases r)
  with Cons.prems obtain k where k: "key_of f = Inr k" by fastforce
  from Cons.prems have "\<exists>agg'. accumulate_records key_of recs (add_record k u c agg) = Inr agg'"
    by (intro Cons.IH) auto
  with k r show ?case by simp
qed

lemma accumulate_records_agg_keys:
  "accumulate_records key_of recs agg = Inr agg' \<Longrightarrow>
     agg_keys agg' = agg_keys agg \<union> {k. \<exists>u f c. (u, f, c) \<in> set recs \<and> key_of f = Inr k}"
proof (induction recs arbitrary: agg)
  case Nil
  then show ?case by simp
next
  case (Cons r recs)
  obtain u f c where r: "r = (u, f, c)" by (cases r)
  from Cons.prems r obtain k where k: "key_of f = Inr k"
    and rest: "accumulate_records key_of recs (add_record k u c agg) = Inr agg'"
    by (auto split: sum.splits)
  show ?case
    unfolding Cons.IH [OF rest] agg_keys_add_record r using k by auto
qed

lemma accumulate_records_agg_total:
  "accumulate_records key_of recs agg = Inr agg' \<Longrightarrow>
     agg_total agg' k = agg_total agg k + (\<Sum>(u, f, c) \<leftarrow> recs. if key_of f = Inr k then c else 0)"
proof (induction recs arbitrary: agg)
  case Nil
  then show ?case by simp
next
  case (Cons r recs)
  obtain u f c where r: "r = (u, f, c)" by (cases r)
  from Cons.prems r obtain k' where k: "key_of f = Inr k'"
    and rest: "accumulate_records key_of recs (add_record k' u c agg) = Inr agg'"
    by (auto split: sum.splits)
  show ?case
    unfolding Cons.IH [OF rest] agg_total_add_record r using k by auto
qed

lemma accumulate_records_agg_users:
  "accumulate_records key_of recs agg = Inr agg' \<Longrightarrow>
     agg_users agg' k = agg_users agg k \<union> {u. \<exists>f c. (u, f, c) \<in> set recs \<and> key_of f = Inr k \<and> 0 < c}"
proof (induction recs arbitrary: agg)
  case Nil
  then show ?case by simp
next
  case (Cons r recs)
  obtain u f c where r: "r = (u, f, c)" by (cases r)
  from Cons.prems r obtain k' where k: "key_of f = Inr k'"
    and rest: "accumulate_records key_of recs (add_record k' u c agg) = Inr agg'"
    by (auto split: sum.splits)
  show ?case
    unfolding Cons.IH [OF rest] agg_users_add_record r using k by auto
qed

lemma accumulate_records_distinct:
  "accumulate_records key_of recs agg = Inr agg' \<Longrightarrow> distinct (map fst (fst agg)) \<Longrightarrow> distinct (map fst (fst agg'))"
proof (induction recs arbitrary: agg)
  case Nil
  then show ?case by simp
next
  case (Cons r recs)
  obtain u f c where r: "r = (u, f, c)" by (cases r)
  from Cons.prems r obtain k' where k: "key_of f = Inr k'"
    and rest: "accumulate_records key_of recs (add_record k' u c agg) = Inr agg'"
    by (auto split: sum.splits)
  from Cons.IH [OF rest] Cons.prems(2) show ?case
    by (simp add: distinct_add_record)
qed

section \<open>Properties of the daily builder\<close>

lemma complete_entry_le:
  assumes "agg_consistent agg"
  shows "snd (complete_entry env agg d) \<le> fst (complete_entry env agg d)"
proof -
  obtain cb ab where agg: "agg = (cb, ab)" by (cases agg)
  from assms have "int (card (get_set ab k)) \<le> get_int cb k" for k
    by (simp add: agg_consistent_def agg agg_users_def agg_total_def)
  then show ?thesis
    by (simp add: complete_entry_def agg Let_def)
qed

lemma make_series_Inr:
  assumes "make_series env dates counts users w = Inr s"
  shows "fechas s = dates \<and> raw_commits s = counts \<and> raw_users s = users
    \<and> calculate_rolling_average env counts w = Inr (commits_rolling_avg s)
    \<and> calculate_rolling_average env users w = Inr (users_rolling_avg s)"
  using assms by (auto simp add: make_series_def split: sum.splits)

text \<open>The series that \<^const>\<open>build_daily_series\<close> returns, by cases as the code has them.\<close>

lemma build_daily_series_cases:
  assumes "build_daily_series env (cb, ab) w = Inr s"
  shows "s = empty_daily_series
    \<or> (\<exists>dates counts users.
          make_series env dates counts users w = Inr s
        \<and> ((\<exists>fechas_dt. sequence_err (map strptime_ymd (sort (map fst cb))) = Inr fechas_dt
              \<and> length fechas_dt > 1
              \<and> date_range_loop (hd fechas_dt) (last fechas_dt) [] = Inr dates
              \<and> counts = map (\<lambda>d. fst (complete_entry env (cb, ab) d)) dates
              \<and> users = map (\<lambda>d. snd (complete_entry env (cb, ab) d)) dates)
          \<or> (sequence_err (map strptime_ymd (sort (map fst cb))) = Inr dates
              \<and> length dates \<le> 1
              \<and> counts = map (get_int cb) (sort (map fst cb))
              \<and> users = map (\<lambda>f. int (card (get_set ab f))) (sort (map fst cb)))))"
  using assms
  by (auto simp add: build_daily_series_def Let_def comp_def split: if_splits sum.splits)

lemma build_daily_series_le:
  assumes "build_daily_series env agg w = Inr s" and "agg_consistent agg"
  shows "length (raw_users s) = length (raw_commits s)
    \<and> (\<forall>i < length (raw_commits s). raw_users s ! i \<le> raw_commits s ! i)"
proof -
  obtain cb ab where agg: "agg = (cb, ab)" by (cases agg)
  from assms(2) have le: "int (card (get_set ab k)) \<le> get_int cb k" for k
    by (simp add: agg_consistent_def agg agg_users_def agg_total_def)
  from assms(1) [unfolded agg, THEN build_daily_series_cases]
  show ?thesis
    using le complete_entry_le [OF assms(2)]
    by (auto simp add: empty_daily_series_def agg dest!: make_series_Inr)
qed

lemma build_daily_series_lengths:
  assumes "build_daily_series env agg w = Inr s"
  shows "length (raw_commits s) = length (fechas s) \<and> length (raw_users s) = length (fechas s)
    \<and> length (commits_rolling_avg s) = length (fechas s) \<and> length (users_rolling_avg s) = length (fechas s)"
proof -
  obtain cb ab where agg: "agg = (cb, ab)" by (cases agg)
  from assms [unfolded agg, THEN build_daily_series_cases]
  show ?thesis
  proof
    assume "s = empty_daily_series"
    then show ?thesis by (simp add: empty_daily_series_def)
  next
    assume "\<exists>dates counts users.
          make_series env dates counts users w = Inr s
        \<and> ((\<exists>fechas_dt. sequence_err (map strptime_ymd (sort (map fst cb))) = Inr fechas_dt
              \<and> length fechas_dt > 1
              \<and> date_range_loop (hd fechas_dt) (last fechas_dt) [] = Inr dates
              \<and> counts = map (\<lambda>d. fst (complete_entry env (cb, ab) d)) dates
              \<and> users = map (\<lambda>d. snd (complete_entry env (cb, ab) d)) dates)
          \<or> (sequence_err (map strptime_ymd (sort (map fst cb))) = Inr dates
              \<and> length dates \<le> 1
              \<and> counts = map (get_int cb) (sort (map fst cb))
              \<and> users = map (\<lambda>f. int (card (get_set ab f))) (sort (map fst cb))))"
    then obtain dates counts users where
      mk: "make_series env dates counts users w = Inr s"
      and len: "length counts = length dates \<and> length users = length dates"
      by (auto dest: length_sequence_err)
    from mk [THEN make_series_Inr]
    have "fechas s = dates" "raw_commits s = counts" "raw_users s = users"
      "length (commits_rolling_avg s) = length counts" "length (users_rolling_avg s) = length users"
      by (auto dest: length_calculate_rolling_average)
    with len show ?thesis by simp
  qed
qed

lemma load_and_process_data_cases:
  "load_and_process_data env loaded w = empty_daily_series
   \<or> (\<exists>data agg. loaded = Inr data
        \<and> accumulate_records day_key (records_of data) ([], []) = Inr agg
        \<and> build_daily_series env agg w = Inr (load_and_process_data env loaded w))"
  by (auto simp add: load_and_process_data_def load_and_process_body_def accumulate_users_records
      split: sum.splits)

lemma empty_daily_series_sel [simp]:
  "fechas empty_daily_series = []" "raw_commits empty_daily_series = []" "raw_users empty_daily_series = []"
  "commits_rolling_avg empty_daily_series = []" "users_rolling_avg empty_daily_series = []"
  by (simp_all add: empty_daily_series_def)

lemma empty_weekly_series_sel [simp]:
  "week_fechas empty_weekly_series = []" "commits empty_weekly_series = []"
  "active_users empty_weekly_series = []" "week_labels empty_weekly_series = []"
  by (simp_all add: empty_weekly_series_def)

lemma load_and_process_data_lengths:
  "length (raw_commits (load_and_process_data env loaded w)) = length (fechas (load_and_process_data env loaded w))
   \<and> length (raw_users (load_and_process_data env loaded w)) = length (fechas (load_and_process_data env loaded w))
   \<and> length (commits_rolling_avg (load_and_process_data env loaded w)) = length (fechas (load_and_process_data env loaded w))
   \<and> length (users_rolling_avg (load_and_process_data env loaded w)) = length (fechas (load_and_process_data env loaded w))"
  using load_and_process_data_cases [of env loaded w]
  by (auto dest: build_daily_series_lengths)

section \<open>The loop that generates the dates\<close>

lemma date_range_loop_eq:
  "date_range_loop a b acc =
     (if a \<le> b \<and> MAXORDINAL \<le> b then Inl OverflowError else Inr (acc @ [a..b]))"
proof (induction a b acc rule: date_range_loop.induct)
  case (1 a b acc)
  show ?case
  proof (cases "a \<le> b")
    case False
    then show ?thesis
      by (subst date_range_loop.simps) simp
  next
    case True
    show ?thesis
    proof (cases "a + 1 > MAXORDINAL")
      case over: True
      with True show ?thesis
        by (subst date_range_loop.simps) (simp add: add_one_day_def)
    next
      case False
      then have next_day: "add_one_day a = Inr (a + 1)"
        by (simp add: add_one_day_def)
      have "[a..b] = a # [a + 1..b]"
        using True by (simp add: upto_rec1)
      with True False 1 [OF True next_day] show ?thesis
        by (subst date_range_loop.simps) (auto simp add: next_day)
    qed
  qed
qed

lemma build_daily_series_range:
  assumes "sequence_err (map strptime_ymd (sort (map fst cb))) = Inr ds"
    and "1 < length ds" and "last ds < MAXORDINAL"
  shows "build_daily_series env (cb, ab) w =
     make_series env [hd ds..last ds]
       (map (\<lambda>d. fst (complete_entry env (cb, ab) d)) [hd ds..last ds])
       (map (\<lambda>d. snd (complete_entry env (cb, ab) d)) [hd ds..last ds]) w"
proof -
  from assms(1,2) have "sort (map fst cb) \<noteq> []"
    by auto
  with assms show ?thesis
    by (simp add: build_daily_series_def date_range_loop_eq Let_def comp_def)
qed

text \<open>
  Claim C10. When every count of the input is non-negative, every entry of the daily
  series has at least as many commits as active users, and so has every entry of the
  weekly series.
\<close>

theorem commits_at_least_active_users:
  assumes "counts_nonneg data"
  shows "length (raw_users (load_and_process_data env (Inr data) w)) = length (raw_commits (load_and_process_data env (Inr data) w))
    \<and> (\<forall>i < length (raw_commits (load_and_process_data env (Inr data) w)).
          raw_users (load_and_process_data env (Inr data) w) ! i \<le> raw_commits (load_and_process_data env (Inr data) w) ! i)
    \<and> length (active_users (calculate_weekly_data (Inr data))) = length (commits (calculate_weekly_data (Inr data)))
    \<and> (\<forall>i < length (commits (calculate_weekly_data (Inr data))).
          active_users (calculate_weekly_data (Inr data)) ! i \<le> commits (calculate_weekly_data (Inr data)) ! i)"
proof -
  let ?s = "load_and_process_data env (Inr data) w"
  have daily: "length (raw_users ?s) = length (raw_commits ?s)
      \<and> (\<forall>i < length (raw_commits ?s). raw_users ?s ! i \<le> raw_commits ?s ! i)"
    using load_and_process_data_cases [of env "Inr data" w]
  proof
    assume "?s = empty_daily_series"
    then show ?thesis by simp
  next
    assume "\<exists>data' agg. Inr data = Inr data'
        \<and> accumulate_records day_key (records_of data') ([], []) = Inr agg
        \<and> build_daily_series env agg w = Inr ?s"
    then obtain agg where acc: "accumulate_records day_key (records_of data) ([], []) = Inr agg"
      and build: "build_daily_series env agg w = Inr ?s"
      by auto
    from acc assms have "agg_consistent agg"
      by (auto simp add: counts_nonneg_def intro: accumulate_records_consistent agg_consistent_empty)
    with build show ?thesis
      by (rule build_daily_series_le)
  qed
  then show ?thesis
    by (simp add: calculate_weekly_data_empty)
qed

theorem commits_at_least_active_users_witness:
  "counts_nonneg [(''ana'', Some [(''2024-03-01'', 2), (''2024-03-04'', 0)]), (''bo'', Some [(''2024-03-01'', 1)])]
   \<and> raw_commits (load_and_process_data strict_environment
        (Inr [(''ana'', Some [(''2024-03-01'', 2), (''2024-03-04'', 0)]), (''bo'', Some [(''2024-03-01'', 1)])]) 7)
       = [3, 0, 0, 0]
   \<and> raw_users (load_and_process_data strict_environment
        (Inr [(''ana'', Some [(''2024-03-01'', 2), (''2024-03-04'', 0)]), (''bo'', Some [(''2024-03-01'', 1)])]) 7) ! 0
       \<le> 3"
proof -
  let ?data = "[(''ana'', Some [(''2024-03-01'', 2), (''2024-03-04'', 0)]), (''bo'', Some [(''2024-03-01'', 1 :: int)])]"
  have h: "counts_nonneg ?data"
    by code_simp
  have c: "raw_commits (load_and_process_data strict_environment (Inr ?data) 7) = [3, 0, 0, 0]"
    by code_simp
  have "\<forall>i < length (raw_commits (load_and_process_data strict_environment (Inr ?data) 7)).
      raw_users (load_and_process_data strict_environment (Inr ?data) 7) ! i \<le> raw_commits (load_and_process_data strict_environment (Inr ?data) 7) ! i"
    using commits_at_least_active_users [OF h, of strict_environment 7] by blast
  moreover have "0 < length (raw_commits (load_and_process_data strict_environment (Inr ?data) 7))"
    by (simp add: c)
  ultimately have "raw_users (load_and_process_data strict_environment (Inr ?data) 7) ! 0 \<le> raw_commits (load_and_process_data strict_environment (Inr ?data) 7) ! 0"
    by blast
  then have "raw_users (load_and_process_data strict_environment (Inr ?data) 7) ! 0 \<le> 3"
    by (simp add: c)
  with h c show ?thesis by simp
qed

section \<open>Properties of the percentage change\<close>

lemma pct_change_loop_map:
  assumes "\<forall>i \<in> set is. i < length (fechas cd)"
  shows "pct_change_loop cd is =
     Inr (map (\<lambda>i. (fechas cd ! i, pct_change (commits_rolling_avg cd ! i) (commits_rolling_avg cd ! (i - 1)))) is)"
  using assms by (induction "is") (simp_all add: Let_def)

lemma map_nth_tl: "map (\<lambda>i. xs ! i) [1..<length xs] = tl xs"
  by (rule nth_equalityI) (auto simp add: nth_tl)

lemma pct_change_Fin: "pct_change (Fin t) (Fin y) = Fin (spec_change t y)"
  by (simp add: pct_change_def spec_change_def)

lemma percentage_change_eq:
  assumes "length (fechas cd) = length (commits_rolling_avg cd)"
  shows "percentage_change cd =
     Inr (tl (fechas cd),
          map (\<lambda>i. pct_change (commits_rolling_avg cd ! i) (commits_rolling_avg cd ! (i - 1)))
            [1..<length (commits_rolling_avg cd)])"
proof (cases "fechas cd = []")
  case True
  with assms show ?thesis by (simp add: percentage_change_def)
next
  case False
  have "\<forall>i \<in> set [1..<length (commits_rolling_avg cd)]. i < length (fechas cd)"
    using assms by simp
  then have "pct_change_loop cd [1..<length (commits_rolling_avg cd)] =
     Inr (map (\<lambda>i. (fechas cd ! i, pct_change (commits_rolling_avg cd ! i) (commits_rolling_avg cd ! (i - 1))))
       [1..<length (commits_rolling_avg cd)])"
    by (rule pct_change_loop_map)
  moreover have "map (\<lambda>i. fechas cd ! i) [1..<length (commits_rolling_avg cd)] = tl (fechas cd)"
    using map_nth_tl [of "fechas cd"] assms by simp
  ultimately show ?thesis
    using False assms by (auto simp add: percentage_change_def comp_def)
qed

text \<open>
  Claim C3. For a series whose dates and rolling averages have the same length, the
  calculator raises nothing and returns the dates without the first one together with
  one change for each index \<open>i \<ge> 1\<close>; on finite values that change is
  \<open>(today - yesterday) / yesterday * 100\<close> when yesterday is not zero, \<open>0\<close> when both
  are zero and \<open>100\<close> when only yesterday is zero. A series shorter than two gives the
  empty result. The values \<open>[0, 0, 5]\<close> give \<open>[0, 100]\<close> and \<open>[4, 2]\<close> give \<open>[-50]\<close>.
\<close>

theorem percentage_change_contract:
  assumes "length (fechas cd) = length (commits_rolling_avg cd)"
  shows "(\<exists>cs. percentage_change cd = Inr (tl (fechas cd), cs)
          \<and> length cs = length (commits_rolling_avg cd) - 1
          \<and> (\<forall>i t y. 1 \<le> i \<and> i < length (commits_rolling_avg cd)
                \<and> commits_rolling_avg cd ! i = Fin t \<and> commits_rolling_avg cd ! (i - 1) = Fin y
                \<longrightarrow> cs ! (i - 1) = Fin (spec_change t y)))
    \<and> (length (commits_rolling_avg cd) < 2 \<longrightarrow> percentage_change cd = Inr ([], []))
    \<and> percentage_change (cd\<lparr>fechas := [d0, d1, d2], commits_rolling_avg := [Fin 0, Fin 0, Fin 5]\<rparr>)
         = Inr ([d1, d2], [Fin 0, Fin 100])
    \<and> percentage_change (cd\<lparr>fechas := [d0, d1], commits_rolling_avg := [Fin 4, Fin 2]\<rparr>)
         = Inr ([d1], [Fin (- 50)])"
proof (intro conjI)
  let ?avg = "commits_rolling_avg cd"
  let ?cs = "map (\<lambda>i. pct_change (?avg ! i) (?avg ! (i - 1))) [1..<length ?avg]"
  have "\<forall>i t y. 1 \<le> i \<and> i < length ?avg \<and> ?avg ! i = Fin t \<and> ?avg ! (i - 1) = Fin y
      \<longrightarrow> ?cs ! (i - 1) = Fin (spec_change t y)"
    by (auto simp add: pct_change_Fin)
  then show "\<exists>cs. percentage_change cd = Inr (tl (fechas cd), cs)
          \<and> length cs = length ?avg - 1
          \<and> (\<forall>i t y. 1 \<le> i \<and> i < length ?avg \<and> ?avg ! i = Fin t \<and> ?avg ! (i - 1) = Fin y
                \<longrightarrow> cs ! (i - 1) = Fin (spec_change t y))"
    using percentage_change_eq [OF assms] by simp
next
  show "length (commits_rolling_avg cd) < 2 \<longrightarrow> percentage_change cd = Inr ([], [])"
  proof
    assume "length (commits_rolling_avg cd) < 2"
    then consider "length (commits_rolling_avg cd) = 0" | "length (commits_rolling_avg cd) = 1"
      by linarith
    then show "percentage_change cd = Inr ([], [])"
    proof cases
      case 1
      with assms show ?thesis by (simp add: percentage_change_def)
    next
      case 2
      with assms have "tl (fechas cd) = []"
        by (cases "fechas cd") auto
      with 2 show ?thesis by (simp add: percentage_change_eq [OF assms])
    qed
  qed
next
  show "percentage_change (cd\<lparr>fechas := [d0, d1, d2], commits_rolling_avg := [Fin 0, Fin 0, Fin 5]\<rparr>)
         = Inr ([d1, d2], [Fin 0, Fin 100])"
    by (simp add: percentage_change_eq pct_change_def upt_rec [of 1] upt_rec [of 2] numeral_3_eq_3)
next
  show "percentage_change (cd\<lparr>fechas := [d0, d1], commits_rolling_avg := [Fin 4, Fin 2]\<rparr>)
         = Inr ([d1], [Fin (- 50)])"
    by (simp add: percentage_change_eq pct_change_def upt_rec [of 1])
qed

theorem percentage_change_contract_witness:
  "length (fechas \<lparr>fechas = [10, 11, 12], commits_rolling_avg = [Fin 2, Fin 3, Fin 0],
        users_rolling_avg = [], raw_commits = [], raw_users = []\<rparr>)
     = length (commits_rolling_avg \<lparr>fechas = [10, 11, 12], commits_rolling_avg = [Fin 2, Fin 3, Fin 0],
        users_rolling_avg = [], raw_commits = [], raw_users = []\<rparr>)
   \<and> (\<exists>cs. percentage_change \<lparr>fechas = [10, 11, 12], commits_rolling_avg = [Fin 2, Fin 3, Fin 0],
        users_rolling_avg = [], raw_commits = [], raw_users = []\<rparr> = Inr ([11, 12], cs)
        \<and> cs ! 0 = Fin 50 \<and> cs ! 1 = Fin (- 100))"
proof -
  let ?cd = "\<lparr>fechas = [10, 11, 12], commits_rolling_avg = [Fin 2, Fin 3, Fin 0],
        users_rolling_avg = [], raw_commits = [], raw_users = []\<rparr>"
  have h: "length (fechas ?cd) = length (commits_rolling_avg ?cd)"
    by simp
  from percentage_change_contract [OF h]
  obtain cs where r: "percentage_change ?cd = Inr (tl (fechas ?cd), cs)"
    and c: "\<forall>i t y. 1 \<le> i \<and> i < length (commits_rolling_avg ?cd)
                \<and> commits_rolling_avg ?cd ! i = Fin t \<and> commits_rolling_avg ?cd ! (i - 1) = Fin y
                \<longrightarrow> cs ! (i - 1) = Fin (spec_change t y)"
    by blast
  from c [rule_format, of 1 3 2] have "cs ! 0 = Fin 50"
    by (simp add: spec_change_def)
  moreover from c [rule_format, of 2 0 3] have "cs ! 1 = Fin (- 100)"
    by (simp add: spec_change_def)
  ultimately show ?thesis
    using r h by simp
qed

section \<open>Claims on the weekly series\<close>

text \<open>
  Claim C4. No week of the output of \<^const>\<open>calculate_weekly_data\<close> is without activity:
  the list of its entries with neither commits nor active users is empty.
\<close>

theorem weekly_no_zero_activity_week:
  "filter zero_activity
     (zip (commits (calculate_weekly_data loaded)) (active_users (calculate_weekly_data loaded))) = []"
  by (simp add: calculate_weekly_data_empty)

text \<open>
  Claim C7, evaluated on the input in which user \<open>u\<close> has count 3 on 2024-07-15 and
  count 1 on 2024-07-23. The aggregation loop holds the weeks 2024-W29 and 2024-W30,
  already in sorted order. For the first week the code splits the label into \<open>2024\<close>
  and \<open>29\<close> and parses the string \<open>2024-29-1\<close> with the format \<^verbatim>\<open>%G-W%V-%u\<close>, which
  requires \<open>2024-W29-1\<close>: the call raises ValueError, as it does for every week label,
  and the builder returns no week, no label and no date. With the \<open>W\<close> in the string the
  same call would give 2024-07-15 (ordinal 739082), the Monday of week 29, which
  precedes the Monday of week 30 (ordinal 739089).
\<close>

theorem weekly_monday_evaluated:
  "accumulate_users week_key_of [(''u'', Some [(''2024-07-15'', 3), (''2024-07-23'', 1)])] ([], [])
     = Inr ([(''2024-W29'', 3), (''2024-W30'', 1)], [(''2024-W29'', {''u''}), (''2024-W30'', {''u''})])
   \<and> sort [''2024-W29'', ''2024-W30''] = [''2024-W29'', ''2024-W30'']
   \<and> split_W [] ''2024-W29'' = [''2024'', ''29'']
   \<and> str_int 2024 @ ''-'' @ str_int 29 @ ''-1'' = ''2024-29-1''
   \<and> strptime_GVu ''2024-29-1'' = Inl ValueError
   \<and> week_date ''2024-W29'' = Inl ValueError
   \<and> calculate_weekly_data (Inr [(''u'', Some [(''2024-07-15'', 3), (''2024-07-23'', 1)])])
     = \<lparr>week_fechas = [], commits = [], active_users = [], week_labels = []\<rparr>
   \<and> strptime_GVu ''2024-W29-1'' = Inr 739082
   \<and> monday_of_label ''2024-W29'' 739082
   \<and> monday_of_label ''2024-W30'' 739089
   \<and> iso_week_less 739082 739089"
  by code_simp

text \<open>
  Claim C9, evaluated on the input in which user \<open>u\<close> has count 0 on 2024-01-01 and
  count 4 on 2024-01-10. The daily series starts on 2024-01-01 (ordinal 738886) with no
  commits and no active users, as the claim says. The aggregation loop of the weekly
  builder holds the week 2024-W01 with total 0 and no active user, but the weekly
  builder returns no entry at all, for that week or for 2024-W02.
\<close>

theorem zero_count_record_evaluated:
  "load_and_process_data \<lparr>pads_year = p, object_mean = m\<rparr>
       (Inr [(''u'', Some [(''2024-01-01'', 0), (''2024-01-10'', 4)])]) 7
     = \<lparr>fechas = [738886, 738887, 738888, 738889, 738890, 738891, 738892, 738893, 738894, 738895],
        commits_rolling_avg = [Fin 0, Fin 0, Fin 0, Fin 0, Fin 0, Fin 0, Fin 0, Fin 0, Fin 0, Fin (4 / 7)],
        users_rolling_avg = [Fin 0, Fin 0, Fin 0, Fin 0, Fin 0, Fin 0, Fin 0, Fin 0, Fin 0, Fin (1 / 7)],
        raw_commits = [0, 0, 0, 0, 0, 0, 0, 0, 0, 4],
        raw_users = [0, 0, 0, 0, 0, 0, 0, 0, 0, 1]\<rparr>
   \<and> strptime_ymd ''2024-01-01'' = Inr 738886
   \<and> accumulate_users week_key_of [(''u'', Some [(''2024-01-01'', 0), (''2024-01-10'', 4)])] ([], [])
     = Inr ([(''2024-W01'', 0), (''2024-W02'', 4)], [(''2024-W02'', {''u''})])
   \<and> week_date ''2024-W01'' = Inl ValueError
   \<and> calculate_weekly_data (Inr [(''u'', Some [(''2024-01-01'', 0), (''2024-01-10'', 4)])])
     = \<lparr>week_fechas = [], commits = [], active_users = [], week_labels = []\<rparr>"
  by (cases p rule: bool.exhaust; hypsubst; code_simp)

text \<open>
  Claim C1, evaluated. The loop that generates the dates returns every day from the
  first to the last date, one day apart, unless the last date is \<^verbatim>\<open>datetime.max\<close>: then
  it steps beyond it and raises OverflowError. The example of the specification gives
  the three-day series. On the input with activity on 9999-12-30 and 9999-12-31 the
  error is caught and the result is the empty series instead of the two days. On keys
  that \<^verbatim>\<open>strptime\<close> accepts without leading zeros the recorded counts are lost, because
  the lookup uses the zero-padded string; where the C library does not pad the year,
  the same happens to every date before the year 1000. A count beyond the float64
  range makes \<^verbatim>\<open>np.mean\<close> raise, and the result is the empty series.
\<close>

theorem daily_series_evaluated:
  "date_range_loop a b [] = (if a \<le> b \<and> MAXORDINAL \<le> b then Inl OverflowError else Inr [a..b])
   \<and> load_and_process_data \<lparr>pads_year = p, object_mean = m\<rparr>
        (Inr [(''u'', Some [(''2024-01-01'', 3), (''2024-01-03'', 2)])]) 7
     = \<lparr>fechas = [738886, 738887, 738888],
        commits_rolling_avg = [Fin 3, Fin (3 / 2), Fin (5 / 3)],
        users_rolling_avg = [Fin 1, Fin (1 / 2), Fin (2 / 3)],
        raw_commits = [3, 0, 2], raw_users = [1, 0, 1]\<rparr>
   \<and> map (strftime_ymd \<lparr>pads_year = p, object_mean = m\<rparr>) [738886, 738887, 738888]
     = [''2024-01-01'', ''2024-01-02'', ''2024-01-03'']
   \<and> strptime_ymd ''9999-12-30'' = Inr 3652058 \<and> strptime_ymd ''9999-12-31'' = Inr 3652059
   \<and> date_range_loop 3652058 3652059 [] = Inl OverflowError
   \<and> load_and_process_data \<lparr>pads_year = p, object_mean = m\<rparr>
        (Inr [(''u'', Some [(''9999-12-30'', 3), (''9999-12-31'', 2)])]) 7
     = \<lparr>fechas = [], commits_rolling_avg = [], users_rolling_avg = [], raw_commits = [], raw_users = []\<rparr>
   \<and> raw_commits (load_and_process_data \<lparr>pads_year = p, object_mean = m\<rparr>
        (Inr [(''u'', Some [(''2024-1-5'', 3), (''2024-1-7'', 2)])]) 7)
     = [0, 0, 0]
   \<and> raw_commits (load_and_process_data \<lparr>pads_year = False, object_mean = m\<rparr>
        (Inr [(''u'', Some [(''0999-01-01'', 3), (''0999-01-03'', 2)])]) 7)
     = [0, 0, 0]
   \<and> raw_commits (load_and_process_data \<lparr>pads_year = True, object_mean = m\<rparr>
        (Inr [(''u'', Some [(''0999-01-01'', 3), (''0999-01-03'', 2)])]) 7)
     = [3, 0, 2]
   \<and> load_and_process_data \<lparr>pads_year = p, object_mean = m\<rparr>
        (Inr [(''u'', Some [(''2024-01-01'', 10 ^ 309)])]) 7
     = \<lparr>fechas = [], commits_rolling_avg = [], users_rolling_avg = [], raw_commits = [], raw_users = []\<rparr>"
  apply (rule conjI)
   apply (simp add: date_range_loop_eq)
  apply (cases p rule: bool.exhaust; hypsubst; code_simp)
  done

section \<open>Load failures\<close>

lemma map_of_load_all_daily_aux:
  "map_of (foldl (\<lambda>all_data (country, loaded). dict_set country (f loaded) all_data) acc countries) c
     = (case map_of (rev countries) c of Some loaded \<Rightarrow> Some (f loaded) | None \<Rightarrow> map_of acc c)"
proof (induction countries arbitrary: acc)
  case Nil
  show ?case by simp
next
  case (Cons p countries)
  obtain c' l where p: "p = (c', l)" by (cases p)
  show ?case
    by (simp add: Cons.IH p map_of_dict_set map_add_def split: option.splits)
qed

text \<open>
  Claim C6. When the file cannot be opened or parsed, both builders return their empty
  series, whatever the error; and in the loading loop every country gets the series
  built from the outcome of its own file alone (the last one, if a country is listed
  twice), so that a failed country does not change the series of another.
\<close>

theorem load_failure_gives_empty_series:
  "load_and_process_data env (Inl e) window_size = empty_daily_series
   \<and> calculate_weekly_data (Inl e) = empty_weekly_series
   \<and> fechas empty_daily_series = [] \<and> raw_commits empty_daily_series = []
   \<and> raw_users empty_daily_series = [] \<and> commits_rolling_avg empty_daily_series = []
   \<and> users_rolling_avg empty_daily_series = []
   \<and> week_fechas empty_weekly_series = [] \<and> commits empty_weekly_series = []
   \<and> active_users empty_weekly_series = [] \<and> week_labels empty_weekly_series = []
   \<and> map_of (load_all_daily env countries window_size) country
       = map_option (\<lambda>loaded. load_and_process_data env loaded window_size) (map_of (rev countries) country)"
proof -
  have "load_and_process_data env (Inl e) window_size = empty_daily_series"
    by (simp add: load_and_process_data_def load_and_process_body_def)
  moreover have "map_of (load_all_daily env countries window_size) country
       = map_option (\<lambda>loaded. load_and_process_data env loaded window_size) (map_of (rev countries) country)"
    unfolding load_all_daily_def map_of_load_all_daily_aux
    by (simp split: option.splits)
  ultimately show ?thesis
    by (simp add: calculate_weekly_data_empty)
qed

section \<open>The daily series depends on the records only\<close>

lemma sort_keys_eq:
  assumes "distinct xs" and "distinct ys" and "set xs = set ys"
  shows "sort xs = sort (ys :: string list)"
  using assms by (intro sorted_distinct_set_unique) simp_all

lemma build_daily_series_cong:
  assumes keys: "agg_keys agg1 = agg_keys agg2"
    and total: "\<And>k. agg_total agg1 k = agg_total agg2 k"
    and users: "\<And>k. agg_users agg1 k = agg_users agg2 k"
    and d1: "distinct (map fst (fst agg1))" and d2: "distinct (map fst (fst agg2))"
  shows "build_daily_series env agg1 w = build_daily_series env agg2 w"
proof -
  obtain cb1 ab1 where a1: "agg1 = (cb1, ab1)" by (cases agg1)
  obtain cb2 ab2 where a2: "agg2 = (cb2, ab2)" by (cases agg2)
  have k: "set (map fst cb1) = set (map fst cb2)"
    using keys by (simp add: agg_keys_def a1 a2)
  have s: "sort (map fst cb1) = sort (map fst cb2)"
    using d1 d2 k unfolding a1 a2 by (intro sort_keys_eq) simp_all
  have t: "get_int cb1 = get_int cb2"
    using total by (auto simp add: agg_total_def a1 a2)
  have u: "get_set ab1 = get_set ab2"
    using users by (auto simp add: agg_users_def a1 a2)
  have c: "complete_entry env (cb1, ab1) = complete_entry env (cb2, ab2)"
    using k by (auto simp add: complete_entry_def t u Let_def)
  show ?thesis
    unfolding a1 a2 build_daily_series_def
    by (simp only: prod.case s t u c)
qed

lemma sum_list_mset_cong:
  "mset xs = mset ys \<Longrightarrow> sum_list (map g xs) = (sum_list (map g ys) :: int)"
  by (metis mset_map sum_mset_sum_list)

lemma accumulate_records_mset:
  assumes m: "mset recs1 = mset recs2"
    and r1: "accumulate_records key_of recs1 ([], []) = Inr agg1"
  shows "\<exists>agg2. accumulate_records key_of recs2 ([], []) = Inr agg2
      \<and> agg_keys agg1 = agg_keys agg2
      \<and> (\<forall>k. agg_total agg1 k = agg_total agg2 k)
      \<and> (\<forall>k. agg_users agg1 k = agg_users agg2 k)
      \<and> distinct (map fst (fst agg1)) \<and> distinct (map fst (fst agg2))"
proof -
  from m have s: "set recs1 = set recs2"
    by (rule mset_eq_setD)
  have "\<And>u f c. (u, f, c) \<in> set recs2 \<Longrightarrow> \<exists>k. key_of f = Inr k"
    using accumulate_records_keys_ok [OF r1] s by blast
  then obtain agg2 where r2: "accumulate_records key_of recs2 ([], []) = Inr agg2"
    using accumulate_records_succeeds by blast
  have "agg_keys agg1 = agg_keys agg2"
    by (simp add: accumulate_records_agg_keys [OF r1] accumulate_records_agg_keys [OF r2] s)
  moreover have "agg_total agg1 k = agg_total agg2 k" for k
    by (simp add: accumulate_records_agg_total [OF r1] accumulate_records_agg_total [OF r2]
        sum_list_mset_cong [OF m])
  moreover have "agg_users agg1 k = agg_users agg2 k" for k
    by (simp add: accumulate_records_agg_users [OF r1] accumulate_records_agg_users [OF r2] s)
  moreover have "distinct (map fst (fst agg1))" "distinct (map fst (fst agg2))"
    using accumulate_records_distinct [OF r1] accumulate_records_distinct [OF r2] by simp_all
  ultimately show ?thesis
    using r2 by blast
qed

lemma load_and_process_body_mset:
  assumes m: "mset (records_of data1) = mset (records_of data2)"
    and r1: "accumulate_records day_key (records_of data1) ([], []) = Inr agg1"
  shows "load_and_process_data env (Inr data1) w = load_and_process_data env (Inr data2) w"
proof -
  from accumulate_records_mset [OF m r1] obtain agg2 where
    r2: "accumulate_records day_key (records_of data2) ([], []) = Inr agg2"
    and eqs: "agg_keys agg1 = agg_keys agg2" "\<And>k. agg_total agg1 k = agg_total agg2 k"
      "\<And>k. agg_users agg1 k = agg_users agg2 k"
      "distinct (map fst (fst agg1))" "distinct (map fst (fst agg2))"
    by blast
  have "build_daily_series env agg1 w = build_daily_series env agg2 w"
    using eqs by (rule build_daily_series_cong)
  with r1 r2 show ?thesis
    by (simp add: load_and_process_data_def load_and_process_body_def accumulate_users_records)
qed

text \<open>
  Claim C8. The daily series is a function of the records of the input and of the
  window size: two inputs with the same records, in whatever order the file lists the
  users and the dates, give the same series for the same window.
\<close>

theorem daily_series_deterministic:
  assumes "mset (records_of data1) = mset (records_of data2)"
  shows "load_and_process_data env (Inr data1) window_size = load_and_process_data env (Inr data2) window_size"
proof (cases "accumulate_records day_key (records_of data1) ([], [])")
  case (Inr agg1)
  with assms show ?thesis by (rule load_and_process_body_mset)
next
  case (Inl e1)
  show ?thesis
  proof (cases "accumulate_records day_key (records_of data2) ([], [])")
    case (Inr agg2)
    from assms [symmetric] Inr
    have "load_and_process_data env (Inr data2) window_size = load_and_process_data env (Inr data1) window_size"
      by (rule load_and_process_body_mset)
    then show ?thesis by simp
  next
    case (Inl e2)
    with \<open>accumulate_records day_key (records_of data1) ([], []) = Inl e1\<close> show ?thesis
      by (simp add: load_and_process_data_def load_and_process_body_def accumulate_users_records)
  qed
qed

theorem daily_series_deterministic_witness:
  "mset (records_of [(''ana'', Some [(''2024-03-01'', 2), (''2024-03-03'', 1)]), (''bo'', Some [(''2024-03-01'', 1)])])
     = mset (records_of [(''bo'', Some [(''2024-03-01'', 1)]), (''ana'', Some [(''2024-03-03'', 1), (''2024-03-01'', 2)])])
   \<and> load_and_process_data lenient_environment (Inr [(''ana'', Some [(''2024-03-01'', 2), (''2024-03-03'', 1)]), (''bo'', Some [(''2024-03-01'', 1)])]) 7
     = load_and_process_data lenient_environment (Inr [(''bo'', Some [(''2024-03-01'', 1)]), (''ana'', Some [(''2024-03-03'', 1), (''2024-03-01'', 2)])]) 7"
proof -
  have h: "mset (records_of [(''ana'', Some [(''2024-03-01'', 2), (''2024-03-03'', 1)]), (''bo'', Some [(''2024-03-01'', 1)])])
     = mset (records_of [(''bo'', Some [(''2024-03-01'', 1)]), (''ana'', Some [(''2024-03-03'', 1), (''2024-03-01'', 2)])])"
    by (simp add: records_of_def)
  show ?thesis
    using h daily_series_deterministic [OF h, of lenient_environment 7] by blast
qed

end
